theory Spec2Isabelle
  imports Main "HOL-Library.Word"
begin

unbundle bit_operations_syntax

section \<open>RailuinoSeeed: machine types of the AVR target\<close>

text \<open>
  The library builds for the ATmega328P and the ATmega32U4 only (the header refuses every
  other board), so \<^verbatim>\<open>byte\<close> is 8 bits, \<^verbatim>\<open>word\<close> and \<^verbatim>\<open>int\<close> are 16 bits and
  \<^verbatim>\<open>unsigned long\<close> is 32 bits. An \<^verbatim>\<open>int\<close> is kept as a 16-bit word whose arithmetic wraps
  (two's complement, as avr-gcc computes it); \<^verbatim>\<open>-1\<close> is the word \<open>0xFFFF\<close>.
\<close>

type_synonym u8 = "8 word"
type_synonym u16 = "16 word"
type_synonym u32 = "32 word"
type_synonym int16 = "16 word"

text \<open>The Arduino macros \<^verbatim>\<open>highByte\<close>, \<^verbatim>\<open>lowByte\<close>, \<^verbatim>\<open>word(h, l)\<close> and \<^verbatim>\<open>bitRead\<close>.\<close>

definition highByte :: "u16 \<Rightarrow> u8" where
  "highByte w = ucast (drop_bit 8 w)"

definition lowByte :: "u16 \<Rightarrow> u8" where
  "lowByte w = ucast (w AND 0xff)"

definition makeWord :: "u8 \<Rightarrow> u8 \<Rightarrow> u16" where
  "makeWord h l = push_bit 8 (ucast h) OR ucast l"

definition bitRead :: "u32 \<Rightarrow> nat \<Rightarrow> bool" where
  "bitRead v n = (drop_bit n v AND 1 \<noteq> 0)"

section \<open>TrackMessage\<close>

text \<open>
  The class \<^verbatim>\<open>TrackMessage\<close>: \<^verbatim>\<open>byte command; word hash; boolean response; byte length;
  byte data[8]\<close>. The field \<^verbatim>\<open>length\<close> is called \<open>length_m\<close> here. The array \<^verbatim>\<open>data\<close> is a
  list; a message object of the program always has eight entries there (\<open>wf_message\<close>).
\<close>

record TrackMessage =
  command :: u8
  hash :: u16
  response :: bool
  length_m :: u8
  data :: "u8 list"

definition wf_message :: "TrackMessage \<Rightarrow> bool" where
  "wf_message m = (length (data m) = 8)"

text \<open>\<^verbatim>\<open>TrackMessage::clear\<close>. The loop stores 0 at the indices 0 to 7.\<close>

definition clear :: "TrackMessage \<Rightarrow> TrackMessage" where
  "clear m =
     m\<lparr>command := 0, hash := 0, response := False, length_m := 0,
       data := fold (\<lambda>i d. d[i := 0]) [0..<8] (data m)\<rparr>"

section \<open>Hexadecimal text\<close>

text \<open>
  \<^verbatim>\<open>String(hex, HEX)\<close> of the Arduino core (avr-libc's \<^verbatim>\<open>ultoa\<close> with radix 16): the digits
  of the number, most significant first, lower case, no leading zero, \<^verbatim>\<open>"0"\<close> for zero.
\<close>

definition hexDigit :: "nat \<Rightarrow> char" where
  "hexDigit d = (if d < 10 then char_of (48 + d) else char_of (87 + d))"

fun hexString :: "nat \<Rightarrow> string" where
  "hexString n = (if n < 16 then [hexDigit n] else hexString (n div 16) @ [hexDigit (n mod 16)])"

declare hexString.simps [simp del]

text \<open>
  \<^verbatim>\<open>printHex(p, hex, digits)\<close>: zeros up to the width, then the digits. The model returns
  the characters printed; the \<^verbatim>\<open>size_t\<close> the source returns is their number.
\<close>

definition printHex :: "nat \<Rightarrow> nat \<Rightarrow> string" where
  "printHex hex digits =
     (let s = hexString hex
      in replicate (digits - length s) (CHR ''0'') @ s)"

text \<open>
  \<^verbatim>\<open>String::charAt\<close> of the Arduino core answers the character 0 for an index beyond
  the end of the string.
\<close>

definition charAt :: "string \<Rightarrow> nat \<Rightarrow> char" where
  "charAt s i = (if i < length s then s ! i else char_of (0::nat))"

text \<open>
  \<^verbatim>\<open>parseHex(s, start, end, ok)\<close>. The result is the pair of the returned \<^verbatim>\<open>int\<close> and
  the value of \<^verbatim>\<open>*ok\<close> after the call; \<^verbatim>\<open>*ok\<close> is only ever written with \<^verbatim>\<open>false\<close>. The
  loop runs over the indices given as a list; a character that is no hexadecimal digit
  leaves the loop at once with \<^verbatim>\<open>-1\<close>.
\<close>

fun parseHex_loop :: "string \<Rightarrow> nat list \<Rightarrow> int16 \<Rightarrow> bool \<Rightarrow> int16 \<times> bool" where
  "parseHex_loop s [] val ok = (val, ok)"
| "parseHex_loop s (i # is) val ok =
     (let c = (of_char (charAt s i) :: nat)
      in if 48 \<le> c \<and> c \<le> 57 then parseHex_loop s is (16 * val + of_nat c - 48) ok
         else if 97 \<le> c \<and> c \<le> 102 then parseHex_loop s is (16 * val + 10 + of_nat c - 97) ok
         else if 65 \<le> c \<and> c \<le> 70 then parseHex_loop s is (16 * val + 10 + of_nat c - 65) ok
         else (- 1, False))"

definition parseHex :: "string \<Rightarrow> nat \<Rightarrow> nat \<Rightarrow> bool \<Rightarrow> int16 \<times> bool" where
  "parseHex s start end ok = parseHex_loop s [start..<end] 0 ok"

section \<open>The text form of a message\<close>

text \<open>\<^verbatim>\<open>TrackMessage::printTo\<close>: the characters printed, in order.\<close>

definition printTo :: "TrackMessage \<Rightarrow> string" where
  "printTo m =
     printHex (unat (hash m)) 4
     @ (if response m then '' R '' else ''   '')
     @ printHex (unat (command m)) 2
     @ '' ''
     @ printHex (unat (length_m m)) 1
     @ concat (map (\<lambda>i. '' '' @ printHex (unat (data m ! i)) 2) [0..<unat (length_m m)])"

text \<open>
  \<^verbatim>\<open>TrackMessage::parseFrom\<close>: the returned boolean and the message object after the
  call. The data loop threads the array and the flag \<^verbatim>\<open>result\<close>.
\<close>

definition parseFrom_data :: "string \<Rightarrow> nat \<Rightarrow> u8 list \<times> bool \<Rightarrow> u8 list \<times> bool" where
  "parseFrom_data s i st =
     (case parseHex s (12 + 3 * i) (12 + 3 * i + 2) (snd st) of
        (v, ok) \<Rightarrow> ((fst st)[i := ucast v], ok))"

definition parseFrom :: "TrackMessage \<Rightarrow> string \<Rightarrow> bool \<times> TrackMessage" where
  "parseFrom m0 s =
     (let m = clear m0
      in if length s < 11 then (False, m)
         else
           (case parseHex s 0 4 True of (h, r1) \<Rightarrow>
            case parseHex s 7 9 r1 of (c, r2) \<Rightarrow>
            case parseHex s 10 11 r2 of (l, r3) \<Rightarrow>
              (let m1 = m\<lparr>hash := h, response := (charAt s 5 \<noteq> CHR '' ''),
                          command := ucast c, length_m := ucast l\<rparr>
               in if 8 < unat (length_m m1) then (False, m1)
                  else if length s < 11 + 3 * unat (length_m m1) then (False, m1)
                  else
                    (case fold (parseFrom_data s) [0..<unat (length_m m1)] (data m1, r3) of
                       (d, r4) \<Rightarrow> (r4, m1\<lparr>data := d\<rparr>)))))"

section \<open>Frames of the CAN driver\<close>

text \<open>
  \<^verbatim>\<open>TrackMessage::fromCanMsg(aId, aExt, aRtr, aLen, aBuf)\<close>. The copy loop stores
  \<^verbatim>\<open>aBuf[i]\<close> into \<^verbatim>\<open>data[i]\<close> for every \<^verbatim>\<open>i < length\<close>. The array has eight entries and
  is the last member of the object, so a store at index 8 or above lands behind the
  object, in memory this model does not follow: the eight entries stay as they are
  (\<open>list_update\<close> beyond the end changes nothing).
\<close>

definition fromCanMsg ::
  "TrackMessage \<Rightarrow> u32 \<Rightarrow> u8 \<Rightarrow> u8 \<Rightarrow> u8 \<Rightarrow> u8 list \<Rightarrow> bool \<times> TrackMessage" where
  "fromCanMsg m0 aId aExt aRtr aLen aBuf =
     (let m = clear m0;
          m1 = m\<lparr>command := ucast (drop_bit 17 aId AND 0xff),
                  hash := ucast (aId AND 0xffff),
                  response := bitRead aId 16,
                  length_m := aLen\<rparr>
      in (True, m1\<lparr>data := fold (\<lambda>i d. d[i := aBuf ! i]) [0..<unat (length_m m1)] (data m1)\<rparr>))"

section \<open>The transport, the clock and the serial monitor\<close>

text \<open>
  A frame as the MCP_CAN driver takes and hands out: identifier, extended flag, remote
  flag, byte count and the buffer of the payload (\<^verbatim>\<open>cdata\<close> as the driver leaves it).
\<close>

record can_frame =
  can_id :: u32
  ext :: u8
  rtr :: u8
  len :: u8
  buf :: "u8 list"

datatype event = Sent can_frame | Delayed u32 | Printed string | PrintedHex u8

text \<open>
  Everything outside the library is one record. \<open>clock w n\<close> is what the \<open>n\<close>-th call
  of \<^verbatim>\<open>millis()\<close> answers, \<open>rx_script w n\<close> what the driver holds at position \<open>n\<close> of
  its receive history (\<open>None\<close>: a check that finds nothing; \<open>Some f\<close>: the frame \<open>f\<close>
  is waiting), \<open>tx_script w n\<close> the status the driver answers to the \<open>n\<close>-th
  \<^verbatim>\<open>sendMsgBuf\<close>. The counters say how far each script has been consumed, and
  \<open>trace\<close> lists in order what the library did to the outside: frames handed to the
  driver, calls of \<^verbatim>\<open>delay\<close>, text printed on the serial monitor.
\<close>

record world =
  clock :: "nat \<Rightarrow> u32"
  clock_reads :: nat
  rx_script :: "nat \<Rightarrow> can_frame option"
  rx_polls :: nat
  tx_script :: "nat \<Rightarrow> u8"
  tx_count :: nat
  trace :: "event list"

text \<open>Status codes of the driver (\<^verbatim>\<open>mcp_can_dfs.h\<close>).\<close>

definition CAN_OK :: u8 where "CAN_OK = 0"
definition CAN_MSGAVAIL :: u8 where "CAN_MSGAVAIL = 3"
definition CAN_NOMSG :: u8 where "CAN_NOMSG = 4"

definition millis :: "world \<Rightarrow> u32 \<times> world" where
  "millis w = (clock w (clock_reads w), w\<lparr>clock_reads := Suc (clock_reads w)\<rparr>)"

definition delay :: "u32 \<Rightarrow> world \<Rightarrow> world" where
  "delay ms w = w\<lparr>trace := trace w @ [Delayed ms]\<rparr>"

definition serial_print :: "string \<Rightarrow> world \<Rightarrow> world" where
  "serial_print s w = w\<lparr>trace := trace w @ [Printed s]\<rparr>"

definition serial_println :: "string \<Rightarrow> world \<Rightarrow> world" where
  "serial_println s w = w\<lparr>trace := trace w @ [Printed s, Printed [char_of (13::nat), char_of (10::nat)]]\<rparr>"

definition serial_println_hex :: "u8 \<Rightarrow> world \<Rightarrow> world" where
  "serial_println_hex b w =
     w\<lparr>trace := trace w @ [PrintedHex b, Printed [char_of (13::nat), char_of (10::nat)]]\<rparr>"

definition sendMsgBuf :: "can_frame \<Rightarrow> world \<Rightarrow> u8 \<times> world" where
  "sendMsgBuf f w =
     (tx_script w (tx_count w), w\<lparr>tx_count := Suc (tx_count w), trace := trace w @ [Sent f]\<rparr>)"

text \<open>
  \<^verbatim>\<open>checkReceive\<close> finds either nothing (and the history moves on by one check) or a
  waiting frame, which stays until \<^verbatim>\<open>readMsgBufID\<close> takes it.
\<close>

definition checkReceive :: "world \<Rightarrow> u8 \<times> world" where
  "checkReceive w =
     (case rx_script w (rx_polls w) of
        None \<Rightarrow> (CAN_NOMSG, w\<lparr>rx_polls := Suc (rx_polls w)\<rparr>)
      | Some f \<Rightarrow> (CAN_MSGAVAIL, w))"

definition readMsgBufID :: "world \<Rightarrow> can_frame \<times> world" where
  "readMsgBufID w =
     (case rx_script w (rx_polls w) of
        None \<Rightarrow> (\<lparr>can_id = 0, ext = 0, rtr = 0, len = 0, buf = replicate 8 0\<rparr>, w)
      | Some f \<Rightarrow> (f, w\<lparr>rx_polls := Suc (rx_polls w)\<rparr>))"

definition sent_frames :: "world \<Rightarrow> can_frame list" where
  "sent_frames w = concat (map (\<lambda>e. case e of Sent f \<Rightarrow> [f] | _ \<Rightarrow> []) (trace w))"

definition delays :: "world \<Rightarrow> u32 list" where
  "delays w = concat (map (\<lambda>e. case e of Delayed d \<Rightarrow> [d] | _ \<Rightarrow> []) (trace w))"

section \<open>TrackController\<close>

record TrackController =
  mHash :: u16
  mDebug :: bool

text \<open>
  A local \<^verbatim>\<open>TrackMessage message;\<close> is not initialised, and every operation clears it
  before use; \<open>clear\<close> overwrites all fields, so the model starts from zeros.
\<close>

definition local_message :: TrackMessage where
  "local_message = \<lparr>command = 0, hash = 0, response = False, length_m = 0, data = replicate 8 0\<rparr>"

text \<open>
  \<^verbatim>\<open>TrackController::receiveMessage\<close>. The clock is read once (the value is not used);
  \<^verbatim>\<open>readRxTxStatus\<close> only supplies an argument of \<^verbatim>\<open>readMsgBufID\<close>.
\<close>

definition receiveMessage ::
  "TrackController \<Rightarrow> TrackMessage \<Rightarrow> world \<Rightarrow> bool \<times> TrackMessage \<times> world" where
  "receiveMessage c message w =
     (case millis w of (t, w1) \<Rightarrow>
      case checkReceive w1 of (avail, w2) \<Rightarrow>
        if CAN_MSGAVAIL \<noteq> avail then (False, message, w2)
        else
          (case readMsgBufID w2 of (f, w3) \<Rightarrow>
           case fromCanMsg message (can_id f) (ext f) (rtr f) (len f) (buf f) of (r, message1) \<Rightarrow>
             (True, message1,
              if mDebug c then serial_println (printTo message1) (serial_print ''<== '' w3)
              else w3)))"

text \<open>\<^verbatim>\<open>TrackController::sendMessage\<close>: the boolean, the message (its hash stamped) and the world.\<close>

definition sendMessage ::
  "TrackController \<Rightarrow> TrackMessage \<Rightarrow> world \<Rightarrow> bool \<times> TrackMessage \<times> world" where
  "sendMessage c message0 w =
     (let message = message0\<lparr>hash := mHash c\<rparr>;
          ident = push_bit 17 (ucast (command message) :: u32) OR ucast (hash message);
          w1 = (if mDebug c then serial_println (printTo message) (serial_print ''==> '' w) else w)
      in case sendMsgBuf \<lparr>can_id = ident, ext = 1, rtr = 0,
                          len = length_m message, buf = data message\<rparr> w1 of
           (result, w2) \<Rightarrow>
             (result = CAN_OK, message,
              if mDebug c then serial_println_hex result (serial_print ''  result '' w2)
              else w2))"

text \<open>
  The empty loop \<^verbatim>\<open>for (;;) ;\<close> of \<^verbatim>\<open>exchangeMessage\<close>. It has no exit: as a partial
  function in the option monad its value is \<open>None\<close>.
\<close>

partial_function (option) emergency_stop ::
  "world \<Rightarrow> (bool \<times> TrackMessage \<times> TrackMessage \<times> world) option" where
  "emergency_stop w = emergency_stop w"

text \<open>
  The polling loop \<^verbatim>\<open>while (millis() < time + timeout) { ... }\<close> with what follows it.
  \<open>cmd\<close> is the local \<^verbatim>\<open>int command\<close>, \<open>inn\<close> the object \<^verbatim>\<open>in\<close>. The sum
  \<^verbatim>\<open>time + timeout\<close> is computed in \<^verbatim>\<open>unsigned long\<close> and wraps at 32 bits. The loop
  runs for as long as the clock stays below the deadline and no reply matches, so it is
  a partial function: \<open>None\<close> is a call that never returns.
\<close>

partial_function (option) exchange_loop ::
  "TrackController \<Rightarrow> u8 \<Rightarrow> u32 \<Rightarrow> u16 \<Rightarrow> TrackMessage \<Rightarrow> world
     \<Rightarrow> (bool \<times> TrackMessage \<times> world) option" where
  "exchange_loop c cmd time timeout inn w =
     (case millis w of (now, w1) \<Rightarrow>
        if now < time + ucast timeout then
          (case receiveMessage c (clear inn) w1 of (result, in1, w2) \<Rightarrow>
             if result \<and> command in1 = cmd \<and> response in1
             then Some (True, in1, w2)
             else exchange_loop c cmd time timeout in1 w2)
        else Some (False, inn,
                   if mDebug c then serial_println ''!!! Receive timeout'' w1 else w1))"

text \<open>
  \<^verbatim>\<open>TrackController::exchangeMessage(out, in, timeout)\<close> for two distinct objects: the
  boolean, \<^verbatim>\<open>out\<close> and \<^verbatim>\<open>in\<close> after the call, and the world.
\<close>

definition exchangeMessage ::
  "TrackController \<Rightarrow> TrackMessage \<Rightarrow> TrackMessage \<Rightarrow> u16 \<Rightarrow> world
     \<Rightarrow> (bool \<times> TrackMessage \<times> TrackMessage \<times> world) option" where
  "exchangeMessage c out inn timeout w =
     (let cmd = command out
      in case sendMessage c out w of (ok, out1, w1) \<Rightarrow>
           if \<not> ok then
             emergency_stop
               (if mDebug c
                then serial_println ''!!! Emergency stop'' (serial_println ''!!! Send error'' w1)
                else w1)
           else
             (case millis w1 of (time, w2) \<Rightarrow>
                map_option (\<lambda>(r, in1, w3). (r, out1, in1, w3))
                  (exchange_loop c cmd time timeout inn w2)))"

text \<open>
  The call \<^verbatim>\<open>exchangeMessage(message, message, timeout)\<close> of the catalog: \<^verbatim>\<open>out\<close> and
  \<^verbatim>\<open>in\<close> are one object, so when the wait begins \<^verbatim>\<open>in\<close> holds the request with its hash
  stamped, and the object after the call is \<^verbatim>\<open>in\<close>.
\<close>

definition exchangeMessage_same ::
  "TrackController \<Rightarrow> TrackMessage \<Rightarrow> u16 \<Rightarrow> world \<Rightarrow> (bool \<times> TrackMessage \<times> world) option" where
  "exchangeMessage_same c message timeout w =
     map_option (\<lambda>(r, out1, in1, w1). (r, in1, w1))
       (exchangeMessage c message (message\<lparr>hash := mHash c\<rparr>) timeout w)"

section \<open>The command catalog\<close>

text \<open>
  \<^verbatim>\<open>TrackController::setPower2(power)\<close>: sends the power command and does not wait;
  \<open>pwr\<close> is the parameter \<^verbatim>\<open>power\<close>.
\<close>

definition setPower2 :: "TrackController \<Rightarrow> bool \<Rightarrow> world \<Rightarrow> bool \<times> world" where
  "setPower2 c pwr w =
     (let message = clear local_message;
          message = message\<lparr>command := 0x00\<rparr>;
          message = message\<lparr>length_m := 0x05\<rparr>;
          message = message\<lparr>data := (data message)[4 := (if pwr then 0x01 else 0x00)]\<rparr>
      in case sendMessage c message w of (ok, message1, w1) \<Rightarrow> (ok, w1))"

text \<open>\<^verbatim>\<open>TrackController::setLocoSpeed\<close>.\<close>

definition setLocoSpeed ::
  "TrackController \<Rightarrow> u16 \<Rightarrow> u16 \<Rightarrow> world \<Rightarrow> (bool \<times> world) option" where
  "setLocoSpeed c address speed w =
     (let message = clear local_message;
          message = message\<lparr>command := 0x04\<rparr>;
          message = message\<lparr>length_m := 0x06\<rparr>;
          message = message\<lparr>data := (data message)[2 := highByte address]\<rparr>;
          message = message\<lparr>data := (data message)[3 := lowByte address]\<rparr>;
          message = message\<lparr>data := (data message)[4 := highByte speed]\<rparr>;
          message = message\<lparr>data := (data message)[5 := lowByte speed]\<rparr>
      in map_option (\<lambda>(r, message1, w1). (r, w1)) (exchangeMessage_same c message 1000 w))"

text \<open>
  \<^verbatim>\<open>TrackController::getLocoSpeed(address, speed)\<close>. The target of \<^verbatim>\<open>speed\<close> is written
  only when the exchange succeeds: the model answers \<open>Some\<close> of the speed when the source
  returns true, and \<open>None\<close> when it returns false.
\<close>

definition getLocoSpeed ::
  "TrackController \<Rightarrow> u16 \<Rightarrow> world \<Rightarrow> (u16 option \<times> world) option" where
  "getLocoSpeed c address w =
     (let message = clear local_message;
          message = message\<lparr>command := 0x04\<rparr>;
          message = message\<lparr>length_m := 0x04\<rparr>;
          message = message\<lparr>data := (data message)[2 := highByte address]\<rparr>;
          message = message\<lparr>data := (data message)[3 := lowByte address]\<rparr>
      in case exchangeMessage_same c message 1000 w of
           None \<Rightarrow> None
         | Some (r, message1, w1) \<Rightarrow>
             if r then Some (Some (makeWord (data message1 ! 4) (data message1 ! 5)), w1)
             else Some (None, w1))"

text \<open>
  \<^verbatim>\<open>TrackController::accelerateLoco\<close> and \<^verbatim>\<open>decelerateLoco\<close>. \<^verbatim>\<open>speed\<close> is a \<^verbatim>\<open>word\<close>:
  \<^verbatim>\<open>speed += 77\<close> and \<^verbatim>\<open>speed -= 77\<close> wrap at 16 bits.
\<close>

definition accelerateLoco :: "TrackController \<Rightarrow> u16 \<Rightarrow> world \<Rightarrow> (bool \<times> world) option" where
  "accelerateLoco c address w =
     (case getLocoSpeed c address w of
        None \<Rightarrow> None
      | Some (None, w1) \<Rightarrow> Some (False, w1)
      | Some (Some speed, w1) \<Rightarrow>
          (let speed = speed + 77;
               speed = (if speed > 1023 then 1023 else speed)
           in setLocoSpeed c address speed w1))"

definition decelerateLoco :: "TrackController \<Rightarrow> u16 \<Rightarrow> world \<Rightarrow> (bool \<times> world) option" where
  "decelerateLoco c address w =
     (case getLocoSpeed c address w of
        None \<Rightarrow> None
      | Some (None, w1) \<Rightarrow> Some (False, w1)
      | Some (Some speed, w1) \<Rightarrow>
          (let speed = speed - 77;
               speed = (if speed > 32767 then 0 else speed)
           in setLocoSpeed c address speed w1))"

text \<open>
  \<^verbatim>\<open>TrackController::setAccessory(address, position, power, time)\<close>; \<open>pwr\<close> is the
  parameter \<^verbatim>\<open>power\<close>. The results of both exchanges are dropped; the function ends
  with \<^verbatim>\<open>return true\<close>.
\<close>

definition setAccessory ::
  "TrackController \<Rightarrow> u16 \<Rightarrow> u8 \<Rightarrow> u8 \<Rightarrow> u16 \<Rightarrow> world \<Rightarrow> (bool \<times> world) option" where
  "setAccessory c address position pwr time w =
     (let message = clear local_message;
          message = message\<lparr>command := 0x0b\<rparr>;
          message = message\<lparr>length_m := 0x06\<rparr>;
          message = message\<lparr>data := (data message)[2 := highByte address]\<rparr>;
          message = message\<lparr>data := (data message)[3 := lowByte address]\<rparr>;
          message = message\<lparr>data := (data message)[4 := position]\<rparr>;
          message = message\<lparr>data := (data message)[5 := pwr]\<rparr>
      in case exchangeMessage_same c message 1000 w of
           None \<Rightarrow> None
         | Some (r1, message1, w1) \<Rightarrow>
             if time \<noteq> 0 then
               (let w2 = delay (ucast time) w1;
                    message = clear message1;
                    message = message\<lparr>command := 0x0b\<rparr>;
                    message = message\<lparr>length_m := 0x06\<rparr>;
                    message = message\<lparr>data := (data message)[2 := highByte address]\<rparr>;
                    message = message\<lparr>data := (data message)[3 := lowByte address]\<rparr>;
                    message = message\<lparr>data := (data message)[4 := position]\<rparr>
                in case exchangeMessage_same c message 1000 w2 of
                     None \<Rightarrow> None
                   | Some (r2, message2, w3) \<Rightarrow> Some (True, w3))
             else Some (True, w1))"

text \<open>
  \<^verbatim>\<open>TrackController::getVersion(high, low)\<close>. The loop
  \<^verbatim>\<open>while (receiveMessage(message))\<close> ends at the first check that finds no frame. Its
  condition is \<^verbatim>\<open>message.command = 0x18 && message.data[6] == 0x00 && message.data[7] == 0x10\<close>:
  an assignment, which stores the truth value of the conjunction (1 or 0) in
  \<^verbatim>\<open>message.command\<close> and yields it. \<open>high\<close> and \<open>low\<close> are the bytes the two pointers
  refer to, \<open>result\<close> the local flag.
\<close>

partial_function (option) getVersion_loop ::
  "TrackController \<Rightarrow> TrackMessage \<Rightarrow> u8 \<Rightarrow> u8 \<Rightarrow> bool \<Rightarrow> world
     \<Rightarrow> (bool \<times> u8 \<times> u8 \<times> world) option" where
  "getVersion_loop c message high low result w =
     (case receiveMessage c message w of (got, message1, w1) \<Rightarrow>
        if got then
          (let v = ((0x18 :: u8) \<noteq> 0 \<and> data message1 ! 6 = 0x00 \<and> data message1 ! 7 = 0x10);
               message2 = message1\<lparr>command := (if v then 1 else 0)\<rparr>
           in if v
              then getVersion_loop c message2 (data message2 ! 4) (data message2 ! 5) True w1
              else getVersion_loop c message2 high low result w1)
        else Some (result, high, low, w1))"

definition getVersion ::
  "TrackController \<Rightarrow> u8 \<Rightarrow> u8 \<Rightarrow> world \<Rightarrow> (bool \<times> u8 \<times> u8 \<times> world) option" where
  "getVersion c high low w =
     (let result = False;
          message = clear local_message;
          message = message\<lparr>command := 0x18\<rparr>
      in case sendMessage c message w of (ok, message1, w1) \<Rightarrow>
           getVersion_loop c message1 high low result (delay 500 w1))"

declare emergency_stop.simps [code]
declare exchange_loop.simps [code]
declare getVersion_loop.simps [code]

section \<open>Concrete controllers, messages and worlds\<close>

text \<open>
  Predicates used to state the properties: the message a frame decodes to, and whether
  what the driver holds at one position of its receive history answers a command.
\<close>

definition decoded :: "can_frame \<Rightarrow> TrackMessage" where
  "decoded f = snd (fromCanMsg local_message (can_id f) (ext f) (rtr f) (len f) (buf f))"

definition matching :: "u8 \<Rightarrow> can_frame option \<Rightarrow> bool" where
  "matching cmd r =
     (case r of None \<Rightarrow> False | Some f \<Rightarrow> command (decoded f) = cmd \<and> response (decoded f))"

text \<open>The frame \<open>sendMessage\<close> hands to the driver for a message.\<close>

definition frame_of :: "TrackController \<Rightarrow> TrackMessage \<Rightarrow> can_frame" where
  "frame_of c m =
     \<lparr>can_id = push_bit 17 (ucast (command m)) OR ucast (mHash c), ext = 1, rtr = 0,
      len = length_m m, buf = data m\<rparr>"

definition c0 :: TrackController where
  "c0 = \<lparr>mHash = 0x4711, mDebug = False\<rparr>"

text \<open>
  A world in which the clock advances by 600 ms from one reading to the next, the
  driver accepts every frame and nothing is ever received.
\<close>

definition quiet :: world where
  "quiet = \<lparr>clock = (\<lambda>n. of_nat n * 600), clock_reads = 0, rx_script = (\<lambda>n. None),
            rx_polls = 0, tx_script = (\<lambda>n. 0), tx_count = 0, trace = []\<rparr>"

text \<open>A world whose driver answers every transmit with \<^verbatim>\<open>CAN_SENDMSGTIMEOUT\<close> (7).\<close>

definition rejecting :: world where
  "rejecting = quiet\<lparr>tx_script := (\<lambda>n. 7)\<rparr>"

text \<open>
  A frame with command \<open>0x00\<close> and the response bit, eight bytes, trailer \<open>0x00 0x10\<close>,
  and a world in which this frame alone is waiting.
\<close>

definition status_frame :: can_frame where
  "status_frame = \<lparr>can_id = 0x00014711, ext = 1, rtr = 0, len = 8,
                   buf = [0, 0, 0, 0, 0x01, 0x27, 0x00, 0x10]\<rparr>"

definition status_waiting :: world where
  "status_waiting = quiet\<lparr>rx_script := (\<lambda>n. if n = 0 then Some status_frame else None)\<rparr>"

text \<open>
  How one world follows from another when only the counters of the clock and of the
  receive history have moved: the scripts, the transmit side and the delays are the same.
\<close>

definition advanced :: "world \<Rightarrow> nat \<Rightarrow> nat \<Rightarrow> world \<Rightarrow> bool" where
  "advanced w dc dp w' =
     (clock w' = clock w \<and> rx_script w' = rx_script w \<and> tx_script w' = tx_script w
      \<and> clock_reads w' = clock_reads w + dc \<and> rx_polls w' = rx_polls w + dp
      \<and> tx_count w' = tx_count w \<and> sent_frames w' = sent_frames w \<and> delays w' = delays w)"

text \<open>
  The speed query for the locomotive address 5 as \<open>getLocoSpeed\<close> builds it, a reply to
  it that reports the speed \<open>0xFFFF\<close>, and one that reports the speed 1000.
\<close>

definition speed_query :: TrackMessage where
  "speed_query = \<lparr>command = 0x04, hash = 0, response = False, length_m = 4,
                  data = [0, 0, 0, 5, 0, 0, 0, 0]\<rparr>"

definition speed_reply :: can_frame where
  "speed_reply = \<lparr>can_id = 0x00094711, ext = 1, rtr = 0, len = 6,
                  buf = [0, 0, 0, 5, 0xFF, 0xFF, 0, 0]\<rparr>"

definition speed_reply_1000 :: can_frame where
  "speed_reply_1000 = \<lparr>can_id = 0x00094711, ext = 1, rtr = 0, len = 6,
                       buf = [0, 0, 0, 5, 0x03, 0xE8, 0, 0]\<rparr>"

text \<open>
  A world whose clock advances by 1 ms from one reading to the next and in which three
  frames arrive one after the other: a frame of another command, then two speed replies.
\<close>

definition busy :: world where
  "busy = \<lparr>clock = (\<lambda>n. of_nat n), clock_reads = 0,
           rx_script = (\<lambda>n. if n = 0 then Some status_frame
                             else if n = 1 then Some speed_reply
                             else if n = 2 then Some speed_reply else None),
           rx_polls = 0, tx_script = (\<lambda>n. 0), tx_count = 0, trace = []\<rparr>"

text \<open>A world in which a reply to the speed query is already waiting.\<close>

definition reply_waiting :: world where
  "reply_waiting = quiet\<lparr>rx_script := (\<lambda>n. if n = 0 then Some speed_reply else None)\<rparr>"

text \<open>A world in which the speed 1000 is reported and the write is acknowledged.\<close>

definition cruising :: world where
  "cruising = busy\<lparr>rx_script := (\<lambda>n. if n = 0 then Some speed_reply_1000
                                      else if n = 1 then Some speed_reply_1000 else None)\<rparr>"

text \<open>A world in which the speed 50 is reported and the write is acknowledged.\<close>

definition speed_reply_50 :: can_frame where
  "speed_reply_50 = \<lparr>can_id = 0x00094711, ext = 1, rtr = 0, len = 6,
                     buf = [0, 0, 0, 5, 0x00, 0x32, 0, 0]\<rparr>"

definition crawling :: world where
  "crawling = busy\<lparr>rx_script := (\<lambda>n. if n = 0 then Some speed_reply_50
                                      else if n = 1 then Some speed_reply_50 else None)\<rparr>"


text \<open>The message of the rendering scenario: its text is \<^verbatim>\<open>1234 R 05 2 00 01\<close>.\<close>

definition scenario_message :: TrackMessage where
  "scenario_message = \<lparr>command = 0x05, hash = 0x1234, response = True, length_m = 2,
                       data = [0x00, 0x01, 0, 0, 0, 0, 0, 0]\<rparr>"

text \<open>The characters \<open>parseHex\<close> takes as digits: its three ranges.\<close>

definition hex_char :: "char \<Rightarrow> bool" where
  "hex_char ch =
     (let c = (of_char ch :: nat)
      in (48 \<le> c \<and> c \<le> 57) \<or> (97 \<le> c \<and> c \<le> 102) \<or> (65 \<le> c \<and> c \<le> 70))"



section \<open>Properties\<close>

subsection \<open>Decoding a frame\<close>

text \<open>
  C6. The claim: every message the core produces has a length between 0 and 8, and both
  decode paths reject input that declares more than 8 payload bytes. \<open>parseFrom\<close> does
  (it returns false when the length digit is above 8); \<open>fromCanMsg\<close> has no such check.
  Called with a byte count of 9 it returns \<^verbatim>\<open>true\<close> and leaves \<open>length = 9\<close> in the message.
\<close>

theorem fromCanMsg_accepts_length_9:
  "fromCanMsg local_message 0x00310000 1 0 9 [1, 2, 3, 4, 5, 6, 7, 8, 9]
     = (True, \<lparr>command = 0x18, hash = 0, response = True, length_m = 9,
               data = [1, 2, 3, 4, 5, 6, 7, 8]\<rparr>)"
  by code_simp

subsection \<open>Parsing text\<close>

text \<open>
  C4. The claim: \<open>parseFrom\<close> succeeds only on texts of the form \<^verbatim>\<open>HHHH R CC L [DD ]*\<close>,
  every separator included. The parser reads fixed positions and never looks at the
  characters at the offsets 4, 6, 9 (nor at the one before a data byte), and any
  character but a space at offset 5 counts as the response mark: a text with \<^verbatim>\<open>x\<close> in
  place of every separator is parsed with success.
\<close>

theorem parseFrom_accepts_wrong_separators:
  "parseFrom local_message ''1234xRx05x1x0a''
     = (True, \<lparr>command = 0x05, hash = 0x1234, response = True, length_m = 1,
               data = [0x0a, 0, 0, 0, 0, 0, 0, 0]\<rparr>)"
  by code_simp

subsection \<open>The version query\<close>

text \<open>
  C8. The claim: a drained frame updates the version bytes if and only if its command is
  \<open>0x18\<close> and its last two bytes are \<open>0x00 0x10\<close>. The condition of the source assigns
  to \<^verbatim>\<open>message.command\<close> instead of comparing it, so the command of the frame is never
  looked at: a waiting frame with command \<open>0x00\<close> and the trailer sets both bytes and
  makes the result true.
\<close>

theorem getVersion_takes_other_command:
  "command (decoded status_frame) = 0x00
   \<and> map_option (\<lambda>(r, h, l, w). (r, h, l)) (getVersion c0 0 0 status_waiting)
       = Some (True, 0x01, 0x27)"
  by code_simp

subsection \<open>Accessories\<close>

text \<open>
  C9. The claim: the boolean \<open>setAccessory\<close> returns reports whether the operation
  succeeded. The function ends with \<^verbatim>\<open>return true\<close> whatever its exchanges returned: in
  a world where no reply ever arrives the activation exchange times out (it returns
  false), and \<open>setAccessory\<close> still returns true, with and without a hold time.
\<close>

theorem setAccessory_true_after_timeout:
  "map_option fst
     (exchangeMessage_same c0
        ((clear local_message)\<lparr>command := 0x0b, length_m := 0x06,
                                data := [0, 0, 0x30, 0x00, 1, 1, 0, 0]\<rparr>) 1000 quiet)
     = Some False
   \<and> map_option (\<lambda>(r, w). (r, sent_frames w)) (setAccessory c0 0x3000 1 1 0 quiet)
       = Some (True, [\<lparr>can_id = 0x164711, ext = 1, rtr = 0, len = 6,
                       buf = [0, 0, 0x30, 0x00, 1, 1, 0, 0]\<rparr>])
   \<and> map_option fst (setAccessory c0 0x3000 1 1 20 quiet) = Some True"
  by code_simp

subsection \<open>Auxiliary facts about messages, the transport and the polling loop\<close>

lemma wf_local_message: "wf_message local_message"
  by (simp add: wf_message_def local_message_def)

lemma clear_zero: "wf_message m \<Longrightarrow> clear m = local_message"
  apply (cases m)
  apply (simp add: clear_def local_message_def wf_message_def)
  apply (simp add: upt_rec list_eq_iff_nth_eq  nth_list_update)
  done




lemma emergency_stop_None: "emergency_stop w = None"
proof (cases "emergency_stop w")
  case None
  then show ?thesis .
next
  case (Some y)
  have "emergency_stop w = Some y \<Longrightarrow> False"
    by (rule emergency_stop.raw_induct [where P = "\<lambda>_ _. False"]) 
  with Some show ?thesis by simp
qed

lemma sendMessage_facts:
  "\<exists>w'. sendMessage c m w = (tx_script w (tx_count w) = CAN_OK, m\<lparr>hash := mHash c\<rparr>, w')
     \<and> clock w' = clock w \<and> rx_script w' = rx_script w \<and> tx_script w' = tx_script w
     \<and> clock_reads w' = clock_reads w \<and> rx_polls w' = rx_polls w
     \<and> tx_count w' = Suc (tx_count w) \<and> sent_frames w' = sent_frames w @ [frame_of c m]
     \<and> delays w' = delays w"
  by (simp add: sendMessage_def sendMsgBuf_def Let_def serial_print_def serial_println_def
      serial_println_hex_def sent_frames_def delays_def frame_of_def)




lemma exchange_loop_expired:
  assumes "\<not> clock w (clock_reads w) < time + ucast timeout"
  shows "\<exists>w'. exchange_loop c cmd time timeout inn w = Some (False, inn, w') \<and> advanced w 1 0 w'"
  using assms
  by (subst exchange_loop.simps)
     (simp add: millis_def advanced_def serial_println_def sent_frames_def delays_def)







subsection \<open>The exchange\<close>






subsection \<open>A rejected transmit\<close>

text \<open>
  C2, as amended. The claim says that the send operation itself halts when the driver
  rejects a frame. \<open>sendMessage\<close> returns false to its caller in that case; the halt
  is in \<open>exchangeMessage\<close>, the send-and-wait path, whose empty loop is entered whenever
  \<open>sendMessage\<close> returned false, with tracing on or off (\<open>d\<close> is any value of
  \<^verbatim>\<open>mDebug\<close>): such a call never returns.
\<close>

theorem exchangeMessage_halts_on_rejected_send:
  assumes "tx_script w (tx_count w) \<noteq> CAN_OK"
  shows "fst (sendMessage (c\<lparr>mDebug := d\<rparr>) out w) = False
         \<and> exchangeMessage (c\<lparr>mDebug := d\<rparr>) out inn timeout w = None"
proof -
  obtain w' where "sendMessage (c\<lparr>mDebug := d\<rparr>) out w = (False, out\<lparr>hash := mHash (c\<lparr>mDebug := d\<rparr>)\<rparr>, w')"
    using sendMessage_facts [of "c\<lparr>mDebug := d\<rparr>" out w] assms by auto
  then show ?thesis
    by (simp add: exchangeMessage_def emergency_stop_None)
qed

text \<open>The theorem in the world \<open>rejecting\<close>, with tracing on and with tracing off.\<close>

theorem exchangeMessage_halts_on_rejected_send_witness:
  "tx_script rejecting (tx_count rejecting) \<noteq> CAN_OK
   \<and> exchangeMessage (c0\<lparr>mDebug := True\<rparr>) speed_query local_message 1000 rejecting = None
   \<and> exchangeMessage (c0\<lparr>mDebug := False\<rparr>) speed_query local_message 1000 rejecting = None"
proof -
  have r: "tx_script rejecting (tx_count rejecting) \<noteq> CAN_OK"
    by (simp add: rejecting_def quiet_def CAN_OK_def)
  show ?thesis
    using r
      exchangeMessage_halts_on_rejected_send
        [OF r, where c = c0 and d = True and out = speed_query and inn = local_message
           and timeout = 1000]
      exchangeMessage_halts_on_rejected_send
        [OF r, where c = c0 and d = False and out = speed_query and inn = local_message
           and timeout = 1000]
    by simp
qed

text \<open>
  C2 as stated fails: in the world \<open>rejecting\<close> the operations that send without
  waiting return false to their caller, and the caller goes on; a second \<open>setPower2\<close>
  hands a second frame to the driver.
\<close>

theorem sendMessage_returns_on_rejected_send:
  "tx_script rejecting (tx_count rejecting) \<noteq> CAN_OK
   \<and> fst (sendMessage c0 speed_query rejecting) = False
   \<and> fst (setPower2 c0 True rejecting) = False
   \<and> length (sent_frames (snd (setPower2 c0 False (snd (setPower2 c0 True rejecting))))) = 2"
  by code_simp

subsection \<open>A timeout of zero\<close>

text \<open>
  C10. With a timeout of 0 the deadline is the clock reading taken after the send, and
  the loop condition is checked before the first poll: when the driver accepts the
  frame and the clock has not run backwards between the two readings (no 32-bit
  roll-over), the call sends the request, polls nothing (the receive history is where it
  was, whatever is waiting there, and the clock was read twice only: a poll would read
  it a third time) and returns false, leaving \<^verbatim>\<open>in\<close> untouched.
\<close>

theorem exchangeMessage_timeout_zero:
  assumes accepted: "tx_script w (tx_count w) = CAN_OK"
    and mono: "clock w (clock_reads w) \<le> clock w (clock_reads w + 1)"
  shows "\<exists>w'. exchangeMessage c out inn 0 w = Some (False, out\<lparr>hash := mHash c\<rparr>, inn, w')
           \<and> rx_polls w' = rx_polls w \<and> rx_script w' = rx_script w
           \<and> clock_reads w' = clock_reads w + 2
           \<and> sent_frames w' = sent_frames w @ [frame_of c out]"
proof -
  let ?time = "clock w (clock_reads w)"
  obtain w1 where send: "sendMessage c out w = (True, out\<lparr>hash := mHash c\<rparr>, w1)"
    and w1: "clock w1 = clock w" "rx_script w1 = rx_script w" "clock_reads w1 = clock_reads w"
      "rx_polls w1 = rx_polls w" "sent_frames w1 = sent_frames w @ [frame_of c out]"
    using sendMessage_facts [of c out w] accepted by auto
  let ?w2 = "w1\<lparr>clock_reads := Suc (clock_reads w1)\<rparr>"
  have ex: "exchangeMessage c out inn 0 w =
      map_option (\<lambda>(r, in1, w3). (r, out\<lparr>hash := mHash c\<rparr>, in1, w3))
        (exchange_loop c (command out) ?time 0 inn ?w2)"
    using send w1 by (simp add: exchangeMessage_def millis_def)
  have "\<not> clock ?w2 (clock_reads ?w2) < ?time + ucast (0 :: u16)"
    using mono w1 by (simp add: not_less)
  from exchange_loop_expired [OF this, of c "command out" inn]
  obtain w' where "exchange_loop c (command out) ?time 0 inn ?w2 = Some (False, inn, w')"
    and "advanced ?w2 1 0 w'" by blast
  then show ?thesis
    using ex w1 by (simp add: advanced_def sent_frames_def)
qed

text \<open>The theorem in the world \<open>reply_waiting\<close>, where a matching reply is waiting.\<close>

theorem exchangeMessage_timeout_zero_witness:
  "tx_script reply_waiting (tx_count reply_waiting) = CAN_OK
   \<and> clock reply_waiting (clock_reads reply_waiting) \<le> clock reply_waiting (clock_reads reply_waiting + 1)
   \<and> matching (command speed_query) (rx_script reply_waiting (rx_polls reply_waiting))
   \<and> (\<exists>w'. exchangeMessage c0 speed_query local_message 0 reply_waiting
              = Some (False, speed_query\<lparr>hash := 0x4711\<rparr>, local_message, w')
            \<and> rx_polls w' = 0 \<and> rx_script w' 0 = Some speed_reply
            \<and> clock_reads w' = 2
            \<and> sent_frames w' = [frame_of c0 speed_query])"
proof -
  have fx: "mHash c0 = 0x4711" "rx_polls reply_waiting = 0" "sent_frames reply_waiting = []"
    "rx_script reply_waiting 0 = Some speed_reply" "clock_reads reply_waiting = 0"
    by (simp_all add: c0_def reply_waiting_def quiet_def sent_frames_def)
  have a: "tx_script reply_waiting (tx_count reply_waiting) = CAN_OK"
    by (simp add: reply_waiting_def quiet_def CAN_OK_def)
  have b: "clock reply_waiting (clock_reads reply_waiting) \<le> clock reply_waiting (clock_reads reply_waiting + 1)"
    by (simp add: reply_waiting_def quiet_def)
  have m: "matching (command speed_query) (rx_script reply_waiting (rx_polls reply_waiting))"
    by code_simp
  from exchangeMessage_timeout_zero [OF a b, where c = c0 and out = speed_query and inn = local_message]
  obtain w' where "exchangeMessage c0 speed_query local_message 0 reply_waiting
              = Some (False, speed_query\<lparr>hash := mHash c0\<rparr>, local_message, w')"
    and "rx_polls w' = rx_polls reply_waiting" and "rx_script w' = rx_script reply_waiting"
    and "clock_reads w' = clock_reads reply_waiting + 2"
    and "sent_frames w' = sent_frames reply_waiting @ [frame_of c0 speed_query]"
    by blast
  then have "exchangeMessage c0 speed_query local_message 0 reply_waiting
              = Some (False, speed_query\<lparr>hash := 0x4711\<rparr>, local_message, w')
            \<and> rx_polls w' = 0 \<and> rx_script w' 0 = Some speed_reply
            \<and> clock_reads w' = 2
            \<and> sent_frames w' = [frame_of c0 speed_query]"
    using fx by simp
  then show ?thesis
    using a b m by blast
qed

subsection \<open>Frames: encoding and decoding\<close>





lemma copy_prefix:
  "n \<le> length d \<Longrightarrow> length d = length src \<Longrightarrow>
   fold (\<lambda>i d. d[i := src ! i]) [0..<n] d = take n src @ drop n d"
proof (induction n)
  case 0
  then show ?case by simp
next
  case (Suc n)
  then have n: "n < length d" "n < length src" by simp_all
  have "fold (\<lambda>i d. d[i := src ! i]) [0..<Suc n] d = (take n src @ drop n d)[n := src ! n]"
    using Suc by simp
  also have "drop n d = d ! n # drop (Suc n) d"
    using n by (simp add: Cons_nth_drop_Suc)
  also have "(take n src @ d ! n # drop (Suc n) d)[n := src ! n]
             = take n src @ src ! n # drop (Suc n) d"
    using n by (simp add: list_update_append)
  also have "\<dots> = take (Suc n) src @ drop (Suc n) d"
    using n by (simp add: take_Suc_conv_app_nth)
  finally show ?case .
qed



subsection \<open>Accelerating and decelerating\<close>

text \<open>
  C7, as amended. When the speed read succeeds with the value \<open>current\<close>:
  \<open>accelerateLoco\<close> writes \<open>min (current + 77) 1023\<close> as long as the 16-bit sum does not
  wrap, that is for \<open>current \<le> 65458\<close> (every valid speed); \<open>decelerateLoco\<close> computes
  \<open>current - 77\<close> in 16 bits and writes 0 when the result is above 32767, else the
  result, and for \<open>current \<le> 32844\<close> the result is above 32767 exactly when
  \<open>current < 77\<close>. From 50 the deceleration writes 0, from 1000 the acceleration writes
  1023. "Writes" is the call of \<open>setLocoSpeed\<close> with that speed.
\<close>

theorem accelerate_decelerate_speed:
  assumes read: "getLocoSpeed c address w = Some (Some current, w1)"
  shows "(unat current \<le> 65458 \<longrightarrow>
            accelerateLoco c address w
              = setLocoSpeed c address (of_nat (min (unat current + 77) 1023)) w1)
       \<and> decelerateLoco c address w
            = setLocoSpeed c address (if 32767 < unat (current - 77) then 0 else current - 77) w1
       \<and> (unat current \<le> 32844 \<longrightarrow> (32767 < unat (current - 77)) = (unat current < 77))
       \<and> (current = 50 \<longrightarrow> decelerateLoco c address w = setLocoSpeed c address 0 w1)
       \<and> (current = 1000 \<longrightarrow> accelerateLoco c address w = setLocoSpeed c address 1023 w1)"
proof -
  have acc: "accelerateLoco c address w
      = setLocoSpeed c address (if current + 77 > 1023 then 1023 else current + 77) w1"
    using read by (simp add: accelerateLoco_def Let_def)
  have dec: "decelerateLoco c address w
      = setLocoSpeed c address (if current - 77 > 32767 then 0 else current - 77) w1"
    using read by (simp add: decelerateLoco_def Let_def)
  have sum: "unat (current + 77) = unat current + 77" if "unat current \<le> 65458"
    using that by (simp add: unat_word_ariths)
  have a1: "(if current + 77 > 1023 then 1023 else current + 77)
            = of_nat (min (unat current + 77) 1023)" if "unat current \<le> 65458"
  proof (cases "current + 77 > 1023")
    case True
    then have "1023 < unat current + 77"
      using sum [OF that] by (simp add: word_less_nat_alt)
    with True show ?thesis by (simp add: min_def)
  next
    case False
    then have "unat current + 77 \<le> 1023"
      using sum [OF that] by (simp add: word_less_nat_alt not_less)
    with False show ?thesis by (simp add: min_def)
  qed
  have d1: "(current - 77 > 32767) = (32767 < unat (current - 77))"
    by (simp add: word_less_nat_alt)
  have d2: "(32767 < unat (current - 77)) = (unat current < 77)" if "unat current \<le> 32844"
  proof (cases "unat current < 77")
    case True
    then have "current < 77" by (simp add: word_less_nat_alt)
    then have "unat (current - 77) = unat current + 65536 - 77"
      using True by (simp add: unat_sub_if_size word_size)
    with True show ?thesis by simp
  next
    case False
    then have "77 \<le> current" by (simp add: word_le_nat_alt)
    then have "unat (current - 77) = unat current - 77"
      by (simp add: unat_sub)
    with False that show ?thesis by simp
  qed
  show ?thesis
    using acc dec a1 d1 d2 by auto
qed

text \<open>The theorem in the worlds \<open>cruising\<close> (speed 1000) and \<open>crawling\<close> (speed 50).\<close>

lemma getLocoSpeed_cruising: "map_option fst (getLocoSpeed c0 5 cruising) = Some (Some 1000)"
  by code_simp

lemma getLocoSpeed_crawling: "map_option fst (getLocoSpeed c0 5 crawling) = Some (Some 50)"
  by code_simp

theorem accelerate_decelerate_speed_witness:
  "map_option fst (getLocoSpeed c0 5 cruising) = Some (Some 1000)
   \<and> accelerateLoco c0 5 cruising
       = setLocoSpeed c0 5 1023 (snd (the (getLocoSpeed c0 5 cruising)))
   \<and> decelerateLoco c0 5 cruising
       = setLocoSpeed c0 5 923 (snd (the (getLocoSpeed c0 5 cruising)))
   \<and> map_option fst (getLocoSpeed c0 5 crawling) = Some (Some 50)
   \<and> decelerateLoco c0 5 crawling
       = setLocoSpeed c0 5 0 (snd (the (getLocoSpeed c0 5 crawling)))
   \<and> accelerateLoco c0 5 crawling
       = setLocoSpeed c0 5 127 (snd (the (getLocoSpeed c0 5 crawling)))"
proof -
  have r1: "getLocoSpeed c0 5 cruising = Some (Some 1000, snd (the (getLocoSpeed c0 5 cruising)))"
    using getLocoSpeed_cruising by (cases "getLocoSpeed c0 5 cruising") auto
  have r2: "getLocoSpeed c0 5 crawling = Some (Some 50, snd (the (getLocoSpeed c0 5 crawling)))"
    using getLocoSpeed_crawling by (cases "getLocoSpeed c0 5 crawling") auto
  show ?thesis
    using accelerate_decelerate_speed [OF r1] accelerate_decelerate_speed [OF r2]
      getLocoSpeed_cruising getLocoSpeed_crawling
    by simp
qed

text \<open>
  C7 as stated fails for a reported speed above 65458: in the world \<open>busy\<close> the speed
  read returns \<open>0xFFFF\<close>, the 16-bit sum wraps to 76, which is not above 1023, and the
  speed written (bytes 4 and 5 of the second frame) is 76, not 1023.
\<close>

theorem accelerateLoco_wraps:
  "map_option fst (getLocoSpeed c0 5 busy) = Some (Some 0xFFFF)
   \<and> map_option fst (accelerateLoco c0 5 busy) = Some True
   \<and> map_option (map buf \<circ> sent_frames \<circ> snd) (accelerateLoco c0 5 busy)
       = Some [[0, 0, 0, 5, 0, 0, 0, 0], [0, 0, 0, 5, 0x00, 0x4C, 0, 0]]"
  by code_simp

subsection \<open>Text: rendering and parsing\<close>

lemma of_char_hexDigit:
  "d < 16 \<Longrightarrow> (of_char (hexDigit d) :: nat) = (if d < 10 then 48 + d else 87 + d)"
  by (simp add: hexDigit_def)

lemma parseHex_loop_digit:
  assumes "charAt s i = hexDigit d" and "d < 16"
  shows "parseHex_loop s (i # js) v ok = parseHex_loop s js (16 * v + of_nat d) ok"
proof (cases "d < 10")
  case True
  then show ?thesis
    using assms by (simp add: of_char_hexDigit Let_def)
next
  case False
  then show ?thesis
    using assms by (simp add: of_char_hexDigit Let_def)
qed

lemma parseHex_loop_digits:
  assumes "\<forall>k<length ds. charAt s (start + k) = hexDigit (ds ! k) \<and> ds ! k < 16"
  shows "parseHex_loop s [start..<start + length ds] v ok
         = (foldl (\<lambda>v d. 16 * v + of_nat d) v ds, ok)"
  using assms
proof (induction ds arbitrary: start v)
  case Nil
  then show ?case by simp
next
  case (Cons d ds)
  from Cons.prems have d: "charAt s start = hexDigit d" "d < 16"
    by (auto dest: spec [of _ 0])
  have rest: "\<forall>k<length ds. charAt s (Suc start + k) = hexDigit (ds ! k) \<and> ds ! k < 16"
  proof (intro allI impI)
    fix k assume "k < length ds"
    then have "Suc k < length (d # ds)" by simp
    with Cons.prems have "charAt s (start + Suc k) = hexDigit ((d # ds) ! Suc k) \<and> (d # ds) ! Suc k < 16"
      by blast
    then show "charAt s (Suc start + k) = hexDigit (ds ! k) \<and> ds ! k < 16" by simp
  qed
  have "[start..<start + length (d # ds)] = start # [Suc start..<Suc start + length ds]"
    by (simp add: upt_rec)
  then show ?case
    using parseHex_loop_digit [OF d] Cons.IH [OF rest] by simp
qed

lemma hexString_1: "n < 16 \<Longrightarrow> hexString n = [hexDigit n]"
  by (simp add: hexString.simps)

lemma hexString_2: "16 \<le> n \<Longrightarrow> n < 256 \<Longrightarrow> hexString n = [hexDigit (n div 16), hexDigit (n mod 16)]"
  by (subst hexString.simps) (simp add: hexString_1)

lemma hexString_3:
  "256 \<le> n \<Longrightarrow> n < 4096 \<Longrightarrow>
   hexString n = [hexDigit (n div 256), hexDigit (n div 16 mod 16), hexDigit (n mod 16)]"
  by (subst hexString.simps) (simp add: hexString_2 div_mult2_eq [symmetric])

lemma hexString_4:
  "4096 \<le> n \<Longrightarrow> n < 65536 \<Longrightarrow>
   hexString n = [hexDigit (n div 4096), hexDigit (n div 256 mod 16), hexDigit (n div 16 mod 16),
                  hexDigit (n mod 16)]"
  by (subst hexString.simps) (simp add: hexString_3 div_mult2_eq [symmetric])

lemma hexDigit_0: "hexDigit 0 = CHR ''0''"
  by code_simp

lemma printHex_1: "n < 16 \<Longrightarrow> printHex n 1 = [hexDigit n]"
  by (simp add: printHex_def hexString_1)

lemma printHex_2: "n < 256 \<Longrightarrow> printHex n 2 = [hexDigit (n div 16), hexDigit (n mod 16)]"
proof (cases "n < 16")
  case True
  then show ?thesis by (simp add: printHex_def hexString_1 hexDigit_0)
next
  case False
  assume "n < 256"
  with False show ?thesis by (simp add: printHex_def hexString_2)
qed

lemma printHex_4:
  assumes "n < 65536"
  shows "printHex n 4 = [hexDigit (n div 4096), hexDigit (n div 256 mod 16),
                         hexDigit (n div 16 mod 16), hexDigit (n mod 16)]"
proof -
  consider "n < 16" | "16 \<le> n" "n < 256" | "256 \<le> n" "n < 4096" | "4096 \<le> n"
    by linarith
  then show ?thesis
  proof cases
    case 1
    then show ?thesis by (simp add: printHex_def hexString_1 hexDigit_0 numeral_3_eq_3)
  next
    case 2
    then show ?thesis by (simp add: printHex_def hexString_2 hexDigit_0 numeral_2_eq_2)
  next
    case 3
    then show ?thesis by (simp add: printHex_def hexString_3 hexDigit_0)
  next
    case 4
    then show ?thesis using assms by (simp add: printHex_def hexString_4)
  qed
qed

lemma length_concat_blocks:
  "\<forall>k<n. length (f k) = 3 \<Longrightarrow> length (concat (map f [0..<n])) = 3 * n"
  by (induction n) simp_all

lemma nth_concat_blocks:
  assumes "\<forall>k<n. length (f k) = 3" and "i < n" and "j < 3"
  shows "concat (map f [0..<n]) ! (3 * i + j) = f i ! j"
  using assms
proof (induction n)
  case 0
  then show ?case by simp
next
  case (Suc n)
  have len: "length (concat (map f [0..<n])) = 3 * n"
    using Suc.prems(1) by (intro length_concat_blocks) simp
  show ?case
  proof (cases "i < n")
    case True
    then have "3 * i + j < 3 * n" using Suc.prems(3) by simp
    then show ?thesis
      using Suc.IH True Suc.prems by (simp add: nth_append len)
  next
    case False
    then have "i = n" using Suc.prems(2) by simp
    then show ?thesis
      using Suc.prems(3) by (simp add: nth_append len)
  qed
qed

lemma nat_8_digits:
  fixes n :: nat
  shows "(n div 16) * 16 + n mod 16 = n"
  by simp

lemma nat_16_digits:
  fixes n :: nat
  shows "((n div 4096 * 16 + n div 256 mod 16) * 16 + n div 16 mod 16) * 16 + n mod 16 = n"
proof -
  have a: "n div 4096 = n div 256 div 16" and b: "n div 256 = n div 16 div 16"
    by (simp_all add: div_mult2_eq [symmetric])
  have "n div 4096 * 16 + n div 256 mod 16 = n div 256"
    unfolding a by simp
  moreover have "n div 256 * 16 + n div 16 mod 16 = n div 16"
    unfolding b by simp
  ultimately show ?thesis by simp
qed

lemma upt_0_4: "[0..<4] = [0, 1, 2, 3::nat]" by code_simp
lemma upt_7_9: "[7..<9] = [7, 8::nat]" by code_simp
lemma upt_10_11: "[10..<11] = [10::nat]" by code_simp
lemma upt_2: "[a..<a + 2] = [a, Suc a]" by (simp add: numeral_2_eq_2 upt_rec)

lemma unat_u8_less: "unat (x :: u8) < 256"
  using unsigned_less [of x] by simp

lemma unat_u16_less: "unat (x :: u16) < 65536"
  using unsigned_less [of x] by simp

lemma ucast_of_nat_u8: "n < 256 \<Longrightarrow> (ucast (of_nat n :: int16) :: u8) = of_nat n"
  by (simp add: unsigned_of_nat take_bit_nat_eq_self)

lemma parse_two_digits:
  assumes "charAt s a = hexDigit (n div 16)" and "charAt s (Suc a) = hexDigit (n mod 16)"
    and "n < 256"
  shows "parseHex s a (a + 2) ok = (of_nat n, ok)"
proof -
  have lt: "n div 16 < 16" "n mod 16 < 16" using assms(3) by simp_all
  have "parseHex s a (a + 2) ok
        = (16 * (16 * 0 + of_nat (n div 16)) + of_nat (n mod 16), ok)"
    unfolding parseHex_def upt_2
    by (simp only: parseHex_loop_digit [OF assms(1) lt(1)] parseHex_loop_digit [OF assms(2) lt(2)]
        parseHex_loop.simps(1))
  also have "(16 * (16 * 0 + of_nat (n div 16)) + of_nat (n mod 16) :: int16) = of_nat n"
  proof -
    have "(of_nat n :: int16) = of_nat ((n div 16) * 16 + n mod 16)"
      by (simp only: nat_8_digits)
    also have "\<dots> = of_nat (n div 16) * 16 + of_nat (n mod 16)"
      by (simp only: of_nat_add of_nat_mult of_nat_numeral)
    finally show ?thesis by simp
  qed
  finally show ?thesis .
qed

lemma parse_four_digits:
  assumes "charAt s 0 = hexDigit (n div 4096)" and "charAt s 1 = hexDigit (n div 256 mod 16)"
    and "charAt s 2 = hexDigit (n div 16 mod 16)" and "charAt s 3 = hexDigit (n mod 16)"
    and "n < 65536"
  shows "parseHex s 0 4 ok = (of_nat n, ok)"
proof -
  have lt: "n div 4096 < 16" "n div 256 mod 16 < 16" "n div 16 mod 16 < 16" "n mod 16 < 16"
    using assms(5) by simp_all
  have "parseHex s 0 4 ok
        = (16 * (16 * (16 * (16 * 0 + of_nat (n div 4096)) + of_nat (n div 256 mod 16))
             + of_nat (n div 16 mod 16)) + of_nat (n mod 16), ok)"
    unfolding parseHex_def upt_0_4
    by (simp only: parseHex_loop_digit [OF assms(1) lt(1)] parseHex_loop_digit [OF assms(2) lt(2)]
        parseHex_loop_digit [OF assms(3) lt(3)] parseHex_loop_digit [OF assms(4) lt(4)]
        parseHex_loop.simps(1))
  also have "(16 * (16 * (16 * (16 * 0 + of_nat (n div 4096)) + of_nat (n div 256 mod 16))
             + of_nat (n div 16 mod 16)) + of_nat (n mod 16) :: int16) = of_nat n"
  proof -
    have "(of_nat n :: int16)
          = of_nat (((n div 4096 * 16 + n div 256 mod 16) * 16 + n div 16 mod 16) * 16 + n mod 16)"
      by (simp only: nat_16_digits)
    also have "\<dots> = ((of_nat (n div 4096) * 16 + of_nat (n div 256 mod 16)) * 16
                        + of_nat (n div 16 mod 16)) * 16 + of_nat (n mod 16)"
      by (simp only: of_nat_add of_nat_mult of_nat_numeral)
    finally show ?thesis by (simp add: algebra_simps)
  qed
  finally show ?thesis .
qed

lemma parse_one_digit:
  assumes "charAt s 10 = hexDigit n" and "n < 16"
  shows "parseHex s 10 11 ok = (of_nat n, ok)"
  unfolding parseHex_def upt_10_11
  by (simp only: parseHex_loop_digit [OF assms] parseHex_loop.simps(1)) simp

text \<open>
  C3. For every message with at most eight payload bytes whose bytes behind the payload
  are zero, parsing the text that \<open>printTo\<close> renders succeeds and gives the message
  back: command, hash, response flag, length and all eight data bytes. (\<open>m0\<close> is the
  object parsed into; it is cleared first.)
\<close>

theorem parseFrom_printTo:
  assumes wf: "wf_message m" and wf0: "wf_message m0"
    and le: "unat (length_m m) \<le> 8"
    and zeros: "\<forall>i<8. unat (length_m m) \<le> i \<longrightarrow> data m ! i = 0"
  shows "parseFrom m0 (printTo m) = (True, m)"
proof -
  define n where "n = unat (length_m m)"
  define h where "h = unat (hash m)"
  define cm where "cm = unat (command m)"
  define b where "b = (\<lambda>i. unat (data m ! i))"
  define blk where "blk = (\<lambda>i. [CHR '' '', hexDigit (b i div 16), hexDigit (b i mod 16)])"
  define r where "r = (if response m then CHR ''R'' else CHR '' '')"
  define pre where "pre = [hexDigit (h div 4096), hexDigit (h div 256 mod 16),
      hexDigit (h div 16 mod 16), hexDigit (h mod 16), CHR '' '', r, CHR '' '',
      hexDigit (cm div 16), hexDigit (cm mod 16), CHR '' '', hexDigit n]"
  define s where "s = printTo m"
  have n8: "n \<le> 8" and n16: "n < 16" using le by (simp_all add: n_def)
  have hlt: "h < 65536" by (simp add: h_def unat_u16_less)
  have clt: "cm < 256" by (simp add: cm_def unat_u8_less)
  have blt: "b i < 256" for i by (simp add: b_def unat_u8_less)
  have len8: "length (data m) = 8" using wf by (simp add: wf_message_def)
  have ph4: "printHex (unat (hash m)) 4
             = [hexDigit (unat (hash m) div 4096), hexDigit (unat (hash m) div 256 mod 16),
                hexDigit (unat (hash m) div 16 mod 16), hexDigit (unat (hash m) mod 16)]"
    by (rule printHex_4 [OF unat_u16_less])
  have ph2: "printHex (unat x) 2 = [hexDigit (unat x div 16), hexDigit (unat x mod 16)]"
    for x :: u8
    by (rule printHex_2 [OF unat_u8_less])
  have ph1: "printHex (unat (length_m m)) (Suc 0) = [hexDigit (unat (length_m m))]"
    using printHex_1 [OF n16] by (simp add: n_def)
  have shape: "s = pre @ concat (map blk [0..<n])"
    unfolding s_def printTo_def pre_def blk_def r_def n_def h_def cm_def b_def
    by (simp add: ph4 ph2 ph1)
  have lpre: "length pre = 11" by (simp add: pre_def)
  have lblk: "\<forall>k<n. length (blk k) = 3" by (simp add: blk_def)
  have ltail: "length (concat (map blk [0..<n])) = 3 * n"
    using lblk by (rule length_concat_blocks)
  have ls: "length s = 11 + 3 * n" by (simp add: shape lpre ltail)
  have head: "charAt s k = pre ! k" if "k < 11" for k
    using that by (simp add: charAt_def shape nth_append lpre ltail)
  have c0: "charAt s 0 = hexDigit (h div 4096)" using head [of 0] by (simp add: pre_def)
  have c1: "charAt s 1 = hexDigit (h div 256 mod 16)" using head [of 1] by (simp add: pre_def)
  have c2: "charAt s 2 = hexDigit (h div 16 mod 16)" using head [of 2] by (simp add: pre_def)
  have c3: "charAt s 3 = hexDigit (h mod 16)" using head [of 3] by (simp add: pre_def)
  have c5: "charAt s 5 = r" using head [of 5] by (simp add: pre_def)
  have c7: "charAt s 7 = hexDigit (cm div 16)" using head [of 7] by (simp add: pre_def)
  have c8: "charAt s (Suc 7) = hexDigit (cm mod 16)" using head [of 8] by (simp add: pre_def)
  have c10: "charAt s 10 = hexDigit n" using head [of 10] by (simp add: pre_def)
  have p_hash: "parseHex s 0 4 True = (hash m, True)"
    using parse_four_digits [OF c0 c1 c2 c3 hlt, of True] by (simp add: h_def)
  have p_cmd: "parseHex s 7 9 True = (of_nat cm, True)"
    using parse_two_digits [OF c7 c8 clt, of True] by simp
  have p_len: "parseHex s 10 11 True = (of_nat n, True)"
    using parse_one_digit [OF c10 n16, of True] by simp
  have cmd_back: "(ucast (of_nat cm :: int16) :: u8) = command m"
    using ucast_of_nat_u8 [OF clt] by (simp add: cm_def)
  have len_back: "(ucast (of_nat n :: int16) :: u8) = length_m m"
    using ucast_of_nat_u8 [of n] n8 by (simp add: n_def)
  have resp_back: "(charAt s 5 \<noteq> CHR '' '') = response m"
    by (simp add: c5 r_def)
  have tail: "charAt s (11 + (3 * i + j)) = blk i ! j" if "i < n" "j < 3" for i j
  proof -
    have "3 * i + j < 3 * n" using that by simp
    then show ?thesis
      using nth_concat_blocks [OF lblk that]
      by (simp add: charAt_def shape nth_append lpre ltail)
  qed
  have step: "parseFrom_data s i (d, True) = (d[i := data m ! i], True)" if "i < n" for i d
  proof -
    have a: "charAt s (12 + 3 * i) = hexDigit (b i div 16)"
      using tail [OF that, of 1] by (simp add: blk_def)
    have b': "charAt s (Suc (12 + 3 * i)) = hexDigit (b i mod 16)"
      using tail [OF that, of 2] by (simp add: blk_def)
    have "parseHex s (12 + 3 * i) (12 + 3 * i + 2) True = (of_nat (b i), True)"
      by (rule parse_two_digits [OF a b' blt])
    moreover have "(ucast (of_nat (b i) :: int16) :: u8) = data m ! i"
      using ucast_of_nat_u8 [OF blt, of i] by (simp add: b_def)
    ultimately show ?thesis by (simp add: parseFrom_data_def)
  qed
  have loop: "fold (parseFrom_data s) [0..<k] (d, True)
              = (fold (\<lambda>i d. d[i := data m ! i]) [0..<k] d, True)" if "k \<le> n" for k d
    using that by (induction k) (simp_all add: step)
  have data_back: "fold (\<lambda>i d. d[i := data m ! i]) [0..<n] (replicate 8 0) = data m"
  proof -
    have "fold (\<lambda>i d. d[i := data m ! i]) [0..<n] (replicate 8 0)
          = take n (data m) @ drop n (replicate 8 0)"
      using n8 len8 by (intro copy_prefix) simp_all
    also have "\<dots> = data m"
    proof (rule nth_equalityI)
      show "length (take n (data m) @ drop n (replicate 8 0)) = length (data m)"
        using n8 len8 by simp
    next
      fix j assume "j < length (take n (data m) @ drop n (replicate 8 0))"
      then have j8: "j < 8" using n8 len8 by simp
      show "(take n (data m) @ drop n (replicate 8 0)) ! j = data m ! j"
      proof (cases "j < n")
        case True
        then show ?thesis using len8 n8 by (simp add: nth_append)
      next
        case False
        then have "data m ! j = 0" using zeros j8 by (simp add: n_def)
        with False j8 show ?thesis using len8 n8 by (simp add: nth_append)
      qed
    qed
    finally show ?thesis .
  qed
  have zero: "data local_message = replicate 8 0"
    by (simp add: local_message_def)
  have "parseFrom m0 s
        = (True, local_message\<lparr>hash := hash m, response := response m, command := command m,
                                length_m := length_m m, data := data m\<rparr>)"
    using n8
    by (simp add: parseFrom_def clear_zero [OF wf0] Let_def ls p_hash p_cmd p_len cmd_back
        len_back resp_back n_def [symmetric] loop data_back zero)
  moreover have "local_message\<lparr>hash := hash m, response := response m, command := command m,
                                length_m := length_m m, data := data m\<rparr> = m"
    by (cases m) (simp add: local_message_def)
  ultimately show ?thesis by (simp add: s_def)
qed

text \<open>The theorem for the message of the rendering scenario, with its text.\<close>

lemma scenario_text: "printTo scenario_message = ''1234 R 05 2 00 01''"
  by code_simp

theorem parseFrom_printTo_witness:
  "wf_message scenario_message \<and> unat (length_m scenario_message) \<le> 8
   \<and> drop (unat (length_m scenario_message)) (data scenario_message) = [0, 0, 0, 0, 0, 0]
   \<and> printTo scenario_message = ''1234 R 05 2 00 01''
   \<and> parseFrom local_message ''1234 R 05 2 00 01'' = (True, scenario_message)"
proof -
  have a: "wf_message scenario_message" by (simp add: wf_message_def scenario_message_def)
  have b: "unat (length_m scenario_message) \<le> 8" by (simp add: scenario_message_def)
  have c: "\<forall>i<8. unat (length_m scenario_message) \<le> i \<longrightarrow> data scenario_message ! i = 0"
  proof (intro allI impI)
    fix i :: nat
    assume "i < 8" and "unat (length_m scenario_message) \<le> i"
    then have "i = 2 \<or> i = 3 \<or> i = 4 \<or> i = 5 \<or> i = 6 \<or> i = 7"
      by (auto simp: scenario_message_def)
    then show "data scenario_message ! i = 0"
      by (auto simp: scenario_message_def)
  qed
  have d: "drop (unat (length_m scenario_message)) (data scenario_message) = [0, 0, 0, 0, 0, 0]"
    by (simp add: scenario_message_def)
  show ?thesis
    using a b d parseFrom_printTo [OF a wf_local_message b c] by (simp add: scenario_text)
qed

subsection \<open>What the parser does reject\<close>

text \<open>
  The failures \<open>parseFrom\<close> does report: a text shorter than 11 characters, a length
  digit above 8, a text too short for its payload, and a character that is no
  hexadecimal digit in the hash, the command, the length or a data byte.
\<close>

lemma parseFrom_short: "length s < 11 \<Longrightarrow> fst (parseFrom m0 s) = False"
  by (simp add: parseFrom_def Let_def)

lemma parseHex_loop_False: "snd (parseHex_loop s js v False) = False"
  by (induction js arbitrary: v) (simp_all add: Let_def)

lemma parseHex_loop_bad:
  "i \<in> set js \<Longrightarrow> \<not> hex_char (charAt s i) \<Longrightarrow> snd (parseHex_loop s js v ok) = False"
  by (induction js arbitrary: v) (auto simp: Let_def hex_char_def)

lemma parseHex_False: "snd (parseHex s a b False) = False"
  by (simp add: parseHex_def parseHex_loop_False)

lemma parseHex_bad:
  "a \<le> i \<Longrightarrow> i < b \<Longrightarrow> \<not> hex_char (charAt s i) \<Longrightarrow> snd (parseHex s a b ok) = False"
  by (simp add: parseHex_def parseHex_loop_bad)

lemma fold_parseFrom_data_Cons:
  "parseHex s (12 + 3 * k) (12 + 3 * k + 2) ok = (v, ok') \<Longrightarrow>
   fold (parseFrom_data s) (k # js) (d, ok) = fold (parseFrom_data s) js (d[k := ucast v], ok')"
proof -
  assume "parseHex s (12 + 3 * k) (12 + 3 * k + 2) ok = (v, ok')"
  then have "parseFrom_data s k (d, ok) = (d[k := ucast v], ok')"
    by (simp add: parseFrom_data_def)
  then show ?thesis by simp
qed

lemma fold_parseFrom_data_False: "snd (fold (parseFrom_data s) js (d, False)) = False"
proof (induction js arbitrary: d)
  case Nil
  then show ?case by simp
next
  case (Cons j js)
  obtain v ok where p: "parseHex s (12 + 3 * j) (12 + 3 * j + 2) False = (v, ok)"
    by (cases "parseHex s (12 + 3 * j) (12 + 3 * j + 2) False")
  then have "ok = False" using parseHex_False [of s "12 + 3 * j" "12 + 3 * j + 2"] by simp
  with p have "fold (parseFrom_data s) (j # js) (d, False)
               = fold (parseFrom_data s) js (d[j := ucast v], False)"
    by (simp only: fold_parseFrom_data_Cons)
  then show ?case by (simp only: Cons.IH)
qed

lemma fold_parseFrom_data_bad:
  assumes "j \<in> set js" and "12 + 3 * j \<le> i" and "i < 12 + 3 * j + 2"
    and "\<not> hex_char (charAt s i)"
  shows "snd (fold (parseFrom_data s) js (d, ok)) = False"
  using assms(1)
proof (induction js arbitrary: d ok)
  case Nil
  then show ?case by simp
next
  case (Cons k js)
  obtain v ok' where p: "parseHex s (12 + 3 * k) (12 + 3 * k + 2) ok = (v, ok')"
    by (cases "parseHex s (12 + 3 * k) (12 + 3 * k + 2) ok")
  have step: "fold (parseFrom_data s) (k # js) (d, ok)
              = fold (parseFrom_data s) js (d[k := ucast v], ok')"
    using p by (rule fold_parseFrom_data_Cons)
  show ?case
  proof (cases "k = j")
    case True
    then have "ok' = False"
      using parseHex_bad [OF assms(2,3,4), of ok] p by simp
    then show ?thesis by (simp only: step fold_parseFrom_data_False)
  next
    case False
    with Cons.prems have "j \<in> set js" by simp
    from Cons.IH [OF this] show ?thesis by (simp only: step)
  qed
qed

text \<open>What a successful parse went through.\<close>

lemma parseFrom_True:
  assumes ok: "fst (parseFrom m0 s)"
  obtains h c l d where "11 \<le> length s"
    and "parseHex s 0 4 True = (h, True)" and "parseHex s 7 9 True = (c, True)"
    and "parseHex s 10 11 True = (l, True)" and "unat (ucast l :: u8) \<le> 8"
    and "11 + 3 * unat (ucast l :: u8) \<le> length s"
    and "fold (parseFrom_data s) [0..<unat (ucast l :: u8)] (data (clear m0), True) = (d, True)"
    and "length_m (snd (parseFrom m0 s)) = ucast l"
proof -
  obtain h r1 where p1: "parseHex s 0 4 True = (h, r1)" by (cases "parseHex s 0 4 True")
  obtain c r2 where p2: "parseHex s 7 9 r1 = (c, r2)" by (cases "parseHex s 7 9 r1")
  obtain l r3 where p3: "parseHex s 10 11 r2 = (l, r3)" by (cases "parseHex s 10 11 r2")
  obtain d r4 where f: "fold (parseFrom_data s) [0..<unat (ucast l :: u8)] (data (clear m0), r3) = (d, r4)"
    by (cases "fold (parseFrom_data s) [0..<unat (ucast l :: u8)] (data (clear m0), r3)")
  have len: "11 \<le> length s"
    using ok by (cases "length s < 11") (simp_all add: parseFrom_def Let_def)
  have l8: "unat (ucast l :: u8) \<le> 8"
    using ok len p1 p2 p3
    by (cases "8 < unat (ucast l :: u8)") (simp_all add: parseFrom_def Let_def clear_def)
  have ll: "11 + 3 * unat (ucast l :: u8) \<le> length s"
    using ok len p1 p2 p3 l8
    by (cases "length s < 11 + 3 * unat (ucast l :: u8)")
       (simp_all add: parseFrom_def Let_def clear_def)
  have res: "parseFrom m0 s
      = (r4, (clear m0)\<lparr>hash := h, response := (charAt s 5 \<noteq> CHR '' ''),
                          command := ucast c, length_m := ucast l, data := d\<rparr>)"
    using len p1 p2 p3 l8 ll f by (simp add: parseFrom_def Let_def clear_def)
  then have r4: "r4" using ok by simp
  have r3: "r3"
  proof (rule ccontr)
    assume "\<not> r3"
    then have "snd (fold (parseFrom_data s) [0..<unat (ucast l :: u8)] (data (clear m0), r3)) = False"
      using fold_parseFrom_data_False [of s] by simp
    with f r4 show False by simp
  qed
  have r2: "r2"
  proof (rule ccontr)
    assume "\<not> r2"
    then have "snd (parseHex s 10 11 r2) = False" using parseHex_False [of s 10 11] by simp
    with p3 r3 show False by simp
  qed
  have r1: "r1"
  proof (rule ccontr)
    assume "\<not> r1"
    then have "snd (parseHex s 7 9 r1) = False" using parseHex_False [of s 7 9] by simp
    with p2 r2 show False by simp
  qed
  show ?thesis
    using that [of h c l d] len p1 p2 p3 l8 ll f res r1 r2 r3 r4 by simp
qed

lemma parseFrom_success_length:
  assumes "fst (parseFrom m0 s)"
  shows "unat (length_m (snd (parseFrom m0 s))) \<le> 8
       \<and> 11 + 3 * unat (length_m (snd (parseFrom m0 s))) \<le> length s"
  using assms by (rule parseFrom_True) simp

lemma parseFrom_non_hex_header:
  assumes "i \<in> {0, 1, 2, 3, 7, 8, 10}" and "\<not> hex_char (charAt s i)"
  shows "fst (parseFrom m0 s) = False"
proof (rule ccontr)
  assume "fst (parseFrom m0 s) \<noteq> False"
  then have "fst (parseFrom m0 s)" by simp
  then obtain h c l where p: "parseHex s 0 4 True = (h, True)" "parseHex s 7 9 True = (c, True)"
    "parseHex s 10 11 True = (l, True)"
    by (rule parseFrom_True) blast
  consider "i < 4" | "i = 7 \<or> i = 8" | "i = 10" using assms(1) by auto
  then show False
  proof cases
    case 1
    then show False using parseHex_bad [of 0 i 4 s True] assms(2) p(1) by simp
  next
    case 2
    then show False using parseHex_bad [of 7 i 9 s True] assms(2) p(2) by auto
  next
    case 3
    then show False using parseHex_bad [of 10 i 11 s True] assms(2) p(3) by simp
  qed
qed

lemma parseFrom_non_hex_data:
  assumes "j < unat (length_m (snd (parseFrom m0 s)))"
    and "i = 12 + 3 * j \<or> i = 13 + 3 * j" and "\<not> hex_char (charAt s i)"
  shows "fst (parseFrom m0 s) = False"
proof (rule ccontr)
  assume "fst (parseFrom m0 s) \<noteq> False"
  then have "fst (parseFrom m0 s)" by simp
  then obtain l :: int16 and d where
    f: "fold (parseFrom_data s) [0..<unat (ucast l :: u8)] (data (clear m0), True) = (d, True)"
    and l: "length_m (snd (parseFrom m0 s)) = ucast l"
    by (rule parseFrom_True) blast
  have i: "12 + 3 * j \<le> i" "i < 12 + 3 * j + 2" using assms(2) by auto
  have "j \<in> set [0..<unat (ucast l :: u8)]" using assms(1) l by simp
  from fold_parseFrom_data_bad [OF this i assms(3), of "data (clear m0)" True] f
  show False by simp
qed

lemma parseFrom_rejects_length_9:
  "fst (parseFrom local_message ''1234 R 05 9 00 01 02 03 04 05 06 07 08'') = False"
  by code_simp

end
